theory Spec2Isabelle
  imports Main "HOL-Library.Stream"
begin

section \<open>hugchat.message: the response reader \<open>Message\<close>\<close>

text \<open>
  The module \<^verbatim>\<open>src/hugchat/message.py\<close> wraps the generator of server events of one
  chat turn in a class \<open>Message\<close>. Each call of \<^verbatim>\<open>__next__\<close> pulls one event, updates
  the fields of the object and returns the event or \<^verbatim>\<open>None\<close>; \<^verbatim>\<open>wait_until_done\<close> loops
  over \<^verbatim>\<open>__next__\<close> until the status is no longer pending. The embedding below passes the
  object explicitly: every method takes the record of the fields and returns the updated
  record next to its result.
\<close>

subsection \<open>Python values\<close>

text \<open>
  The events are decoded JSON objects. Their values are modelled by the datatype below;
  dictionaries are association lists in insertion order (a lookup takes the first entry of
  a key), and floating point numbers are left out. A character of a string is a code point
  of Python below 256 (the Latin-1 range); text with higher code points is outside the
  model.
\<close>

datatype pyval =
    PNone
  | PBool bool
  | PInt int
  | PStr string
  | PList "pyval list"
  | PDict "(string \<times> pyval) list"

type_synonym event = "(string \<times> pyval) list"

subsection \<open>Exceptions\<close>

text \<open>
  Modelled from the spec: the classes \<open>ChatError\<close> and \<open>ModelOverloadedError\<close> come from
  \<^verbatim>\<open>src.hugchat.exceptions\<close>, which is not part of the sources at hand; they are taken to
  be plain subclasses of \<open>Exception\<close> that keep their constructor argument (the spec's
  \<open>ProtocolError\<close>/\<open>UnrecognizedResponseError\<close> and \<open>OverloadedError\<close>).

  \<open>KeyError k\<close> and \<open>TypeError\<close> are what the interpreter raises for a missing key and for
  subscripting or iterating a value that does not support it. \<open>Exception s\<close> is an instance
  of \<open>Exception\<close> itself, \<open>OtherException s\<close> any further subclass of \<open>Exception\<close> (a
  transport failure of the producer, say), and \<open>BaseException s\<close> stands for the exceptions
  that do not derive from \<open>Exception\<close> (\<open>KeyboardInterrupt\<close>, \<open>SystemExit\<close>,
  \<open>GeneratorExit\<close>), which a clause \<^verbatim>\<open>except Exception\<close> does not catch.
\<close>

datatype exn =
    StopIteration
  | KeyError string
  | TypeError
  | ChatError pyval
  | ModelOverloadedError string
  | Exception string
  | OtherException string
  | BaseException string

fun is_Exception :: "exn \<Rightarrow> bool" where
  "is_Exception (BaseException s) = False"
| "is_Exception e = True"

subsection \<open>Operations of the interpreter used by the module\<close>

text \<open>\<^verbatim>\<open>x[k]\<close> for a string key \<open>k\<close>: only a dictionary can be subscripted by a string.\<close>

fun getitem :: "pyval \<Rightarrow> string \<Rightarrow> exn + pyval" where
  "getitem (PDict kvs) k = (case map_of kvs k of None \<Rightarrow> Inl (KeyError k) | Some v \<Rightarrow> Inr v)"
| "getitem x k = Inl TypeError"

text \<open>\<^verbatim>\<open>a.__contains__(k)\<close> on a dictionary.\<close>

definition contains :: "event \<Rightarrow> string \<Rightarrow> bool" where
  "contains a k = (k \<in> set (map fst a))"

text \<open>
  The elements a \<^verbatim>\<open>for\<close> loop runs over: the items of a list, the keys of a dictionary,
  the characters of a string; anything else is not iterable.
\<close>

fun iter :: "pyval \<Rightarrow> exn + pyval list" where
  "iter (PList xs) = Inr xs"
| "iter (PDict kvs) = Inr (map (\<lambda>kv. PStr (fst kv)) kvs)"
| "iter (PStr s) = Inr (map (\<lambda>c. PStr [c]) s)"
| "iter x = Inl TypeError"

text \<open>
  \<^verbatim>\<open>str(a)\<close> of a dictionary is its \<^verbatim>\<open>repr\<close>. A string is quoted with \<^verbatim>\<open>'\<close>, or with
  \<^verbatim>\<open>"\<close> when it holds a \<^verbatim>\<open>'\<close> and no \<^verbatim>\<open>"\<close>; backslash, the quote, tab, newline, carriage
  return are escaped by name, and every other character that is not printable by its
  two-digit hexadecimal escape. Below 256 the characters Python does not count as
  printable are the controls up to \<open>0x1F\<close>, the range from \<open>0x7F\<close> to \<open>0xA0\<close> and the soft
  hyphen \<open>0xAD\<close>.
\<close>

definition hex_digit :: "nat \<Rightarrow> char" where
  "hex_digit n = ''0123456789abcdef'' ! (n mod 16)"

definition repr_quote :: "string \<Rightarrow> char" where
  "repr_quote s = (if CHR 0x27 \<in> set s \<and> CHR 0x22 \<notin> set s then CHR 0x22 else CHR 0x27)"

definition isprintable :: "char \<Rightarrow> bool" where
  "isprintable c =
     (32 \<le> (of_char c :: nat) \<and> (of_char c :: nat) < 127
      \<or> 161 \<le> (of_char c :: nat) \<and> (of_char c :: nat) \<noteq> 173)"

definition repr_char :: "char \<Rightarrow> char \<Rightarrow> string" where
  "repr_char q c =
     (if c = CHR 0x5C then [CHR 0x5C, CHR 0x5C]
      else if c = q then [CHR 0x5C, q]
      else if c = CHR 0x09 then [CHR 0x5C, CHR ''t'']
      else if c = CHR 0x0A then [CHR 0x5C, CHR ''n'']
      else if c = CHR 0x0D then [CHR 0x5C, CHR ''r'']
      else if \<not> isprintable c
        then [CHR 0x5C, CHR ''x'', hex_digit (of_char c div 16), hex_digit (of_char c)]
      else [c])"

definition repr_str :: "string \<Rightarrow> string" where
  "repr_str s = (let q = repr_quote s in [q] @ concat (map (repr_char q) s) @ [q])"

fun repr_nat :: "nat \<Rightarrow> string" where
  "repr_nat n = (if n < 10 then [hex_digit n] else repr_nat (n div 10) @ [hex_digit (n mod 10)])"

definition repr_int :: "int \<Rightarrow> string" where
  "repr_int i = (if i < 0 then CHR ''-'' # repr_nat (nat (- i)) else repr_nat (nat i))"

fun join :: "string \<Rightarrow> string list \<Rightarrow> string" where
  "join sep [] = []"
| "join sep [x] = x"
| "join sep (x # y # ys) = x @ sep @ join sep (y # ys)"

primrec repr :: "pyval \<Rightarrow> string" where
  "repr PNone = ''None''"
| "repr (PBool b) = (if b then ''True'' else ''False'')"
| "repr (PInt i) = repr_int i"
| "repr (PStr s) = repr_str s"
| "repr (PList xs) = ''['' @ join '', '' (map repr xs) @ '']''"
| "repr (PDict kvs) =
     ''{'' @ join '', '' (map (\<lambda>(k, r). repr_str k @ '': '' @ r) (map (map_prod id repr) kvs)) @ ''}''"

definition str :: "event \<Rightarrow> string" where
  "str a = repr (PDict a)"

text \<open>\<^verbatim>\<open>needle in hay\<close> on strings: \<open>needle\<close> occurs as a contiguous part of \<open>hay\<close>.\<close>

fun occurs_in :: "string \<Rightarrow> string \<Rightarrow> bool" where
  "occurs_in needle [] = (needle = [])"
| "occurs_in needle (c # cs) = (take (length needle) (c # cs) = needle \<or> occurs_in needle cs)"

subsection \<open>The producer\<close>

text \<open>
  The generator \<open>g\<close> is owned by the caller. All the module does with it in \<^verbatim>\<open>__next__\<close> is
  \<^verbatim>\<open>next(self.g)\<close>, which yields an event or raises. A producer is therefore the stream of
  the outcomes of its successive pulls; it may go on for ever. A Python generator that
  yields finitely many events and returns raises \<open>StopIteration\<close> at every later pull.
\<close>

datatype pull = Yield event | Raise exn

definition generator :: "event list \<Rightarrow> pull stream" where
  "generator evs = map Yield evs @- sconst (Raise StopIteration)"

subsection \<open>Constants and the fields of the class\<close>

definition MSGTYPE_FINAL :: string where "MSGTYPE_FINAL = ''finalAnswer''"
definition MSGTYPE_STREAM :: string where "MSGTYPE_STREAM = ''stream''"
definition MSGTYPE_WEB :: string where "MSGTYPE_WEB = ''webSearch''"
definition MSGTYPE_STATUS :: string where "MSGTYPE_STATUS = ''status''"

definition MSGSTATUS_PENDING :: int where "MSGSTATUS_PENDING = 0"
definition MSGSTATUS_RESOLVED :: int where "MSGSTATUS_RESOLVED = 1"
definition MSGSTATUS_REJECTED :: int where "MSGSTATUS_REJECTED = 2"

record WebSearchSource =
  title :: pyval
  link :: pyval
  hostname :: pyval

text \<open>
  The field \<^verbatim>\<open>_stream_yield_all\<close> is \<open>stream_yield_all\<close> here. \<open>error = None\<close> is Python's
  \<^verbatim>\<open>None\<close>. \<open>final_answer\<close> holds whatever the event carried under \<^verbatim>\<open>"text"\<close>.
\<close>

record message =
  g :: "pull stream"
  stream_yield_all :: bool
  web_search :: bool
  web_search_sources :: "WebSearchSource list"
  final_answer :: pyval
  web_search_done :: bool
  msg_status :: int
  error :: "exn option"

subsection \<open>Construction\<close>

text \<open>
  The defaults of the fields are evaluated once, when the class body runs. At line 58,
  \<^verbatim>\<open>web_search_done: bool = not web_search\<close>, the name \<^verbatim>\<open>web_search\<close> is the class attribute
  bound at line 55, that is \<open>False\<close>; it is not the argument a later constructor call
  passes. \<open>web_search_class_default\<close> is that attribute. The constructor is the one
  \<^verbatim>\<open>@dataclass\<close> generates from the annotated fields, called with the three arguments the
  docstring lists (\<^verbatim>\<open>g\<close>, \<^verbatim>\<open>_stream_yield_all\<close>, \<^verbatim>\<open>web_search\<close>) and the defaults of the
  others. (The decorator itself rejects the default \<^verbatim>\<open>list()\<close> of line 56 with a
  \<open>ValueError\<close> when the class is created; the model takes the fields and defaults as the
  class body writes them.)
\<close>

definition web_search_class_default :: bool where
  "web_search_class_default = False"

definition Message_init :: "pull stream \<Rightarrow> bool \<Rightarrow> bool \<Rightarrow> message" where
  "Message_init gen yield_all search =
     \<lparr> g = gen,
       stream_yield_all = yield_all,
       web_search = search,
       web_search_sources = [],
       final_answer = PStr [],
       web_search_done = (\<not> web_search_class_default),
       msg_status = MSGSTATUS_PENDING,
       error = None \<rparr>"

subsection \<open>\<^verbatim>\<open>__next__\<close>\<close>

text \<open>
  Lines 80 to 85: the loop over the entries of \<^verbatim>\<open>sources\<close>. An entry that lacks one of
  the three keys, or is no dictionary, raises; the entries appended before it stay in
  \<open>web_search_sources\<close>.
\<close>

fun append_sources :: "pyval list \<Rightarrow> message \<Rightarrow> exn option \<times> message" where
  "append_sources [] m = (None, m)"
| "append_sources (source # rest) m =
     (case getitem source ''title'' of
        Inl e \<Rightarrow> (Some e, m)
      | Inr t \<Rightarrow>
     (case getitem source ''link'' of
        Inl e \<Rightarrow> (Some e, m)
      | Inr l \<Rightarrow>
     (case getitem source ''hostname'' of
        Inl e \<Rightarrow> (Some e, m)
      | Inr h \<Rightarrow>
          append_sources rest
            (m\<lparr>web_search_sources :=
                 web_search_sources m @ [\<lparr>title = t, link = l, hostname = h\<rparr>]\<rparr>))))"

text \<open>
  Lines 69 to 96: the dispatch on the type \<open>t\<close> of the event \<open>a\<close>. The result is the
  exception raised on the way, if any, and the object as the branch left it.
\<close>

definition dispatch :: "event \<Rightarrow> pyval \<Rightarrow> message \<Rightarrow> exn option \<times> message" where
  "dispatch a t m =
     (if t = PStr MSGTYPE_STREAM then (None, m\<lparr>web_search_done := True\<rparr>)
      else if t = PStr MSGTYPE_STATUS then (None, m)
      else if t = PStr MSGTYPE_FINAL then
        (case getitem (PDict a) ''text'' of
           Inl e \<Rightarrow> (Some e, m)
         | Inr v \<Rightarrow> (None, m\<lparr>final_answer := v, msg_status := MSGSTATUS_RESOLVED\<rparr>))
      else if t = PStr MSGTYPE_WEB then
        (if contains a ''sources'' then
           (let m1 = m\<lparr>web_search_sources := []\<rparr> in
            case getitem (PDict a) ''sources'' of
              Inl e \<Rightarrow> (Some e, m1)
            | Inr sources \<Rightarrow>
                (case iter sources of
                   Inl e \<Rightarrow> (Some e, m1)
                 | Inr entries \<Rightarrow> append_sources entries m1))
         else (None, m))
      else if occurs_in ''Model is overloaded'' (str a) then
        (None, m\<lparr>error := Some (ModelOverloadedError
            ''Model is overloaded, please try again later or switch to another model.''),
          msg_status := MSGSTATUS_REJECTED\<rparr>)
      else if contains a ''error'' then
        (case getitem (PDict a) ''error'' of
           Inl e \<Rightarrow> (Some e, m)
         | Inr v \<Rightarrow> (None, m\<lparr>error := Some (ChatError v), msg_status := MSGSTATUS_REJECTED\<rparr>))
      else (None, m\<lparr>error := Some (ChatError (PStr (''Unknow json response: '' @ str a)))\<rparr>))"

text \<open>
  Lines 101 to 103: the handler of the \<^verbatim>\<open>try\<close> block. An instance of \<open>Exception\<close> is
  stored and the method returns \<^verbatim>\<open>None\<close>; anything else propagates to the caller.
\<close>

definition except_Exception :: "exn \<Rightarrow> message \<Rightarrow> (exn + event option) \<times> message" where
  "except_Exception e m =
     (if is_Exception e
      then (Inr None, m\<lparr>error := Some e, msg_status := MSGSTATUS_REJECTED\<rparr>)
      else (Inl e, m))"

text \<open>
  The result of \<^verbatim>\<open>__next__\<close> is \<open>Inl e\<close> when it raises \<open>e\<close>, \<open>Inr None\<close> when it returns
  \<^verbatim>\<open>None\<close> and \<open>Inr (Some a)\<close> when it returns the event \<open>a\<close>. The test of line 63 is
  Python's truth of an integer: any status other than \<open>0\<close>.
\<close>

definition Message_next :: "message \<Rightarrow> (exn + event option) \<times> message" where
  "Message_next m =
     (if msg_status m \<noteq> 0 then (Inl StopIteration, m)
      else
        (let m1 = m\<lparr>g := stl (g m)\<rparr> in
         case shd (g m) of
           Raise e \<Rightarrow> except_Exception e m1
         | Yield a \<Rightarrow>
             (case getitem (PDict a) ''type'' of
                Inl e \<Rightarrow> except_Exception e m1
              | Inr t \<Rightarrow>
                  (case dispatch a t m1 of
                     (Some e, m2) \<Rightarrow> except_Exception e m2
                   | (None, m2) \<Rightarrow>
                       (if stream_yield_all m2 \<or> t = PStr MSGTYPE_STREAM
                        then (Inr (Some a), m2)
                        else (Inr None, m2))))))"

subsection \<open>\<^verbatim>\<open>done\<close>, \<^verbatim>\<open>done_search\<close> and \<^verbatim>\<open>wait_until_done\<close>\<close>

definition Message_done :: "message \<Rightarrow> int" where
  "Message_done m = msg_status m"

definition done_search :: "message \<Rightarrow> bool" where
  "done_search m = web_search_done m"

text \<open>
  The loop of \<^verbatim>\<open>wait_until_done\<close> need not end (a producer may yield heartbeats for ever),
  so the method is a partial function: \<open>None\<close> is "does not return". \<open>Some (Inr v, m')\<close> is
  the return of \<open>v\<close>, \<open>Some (Inl e, m')\<close> the raise of \<open>e\<close>.
\<close>

partial_function (option) wait_until_done :: "message \<Rightarrow> ((exn + pyval) \<times> message) option" where
  "wait_until_done m =
     (if Message_done m = 0 then
        (case Message_next m of
           (Inl e, m') \<Rightarrow> Some (Inl e, m')
         | (Inr r, m') \<Rightarrow> wait_until_done m')
      else if Message_done m = MSGSTATUS_RESOLVED then Some (Inr (final_answer m), m)
      else
        (case error m of
           Some e \<Rightarrow> Some (Inl e, m)
         | None \<Rightarrow> Some (Inl (Exception ''Rejected but no error captured!''), m)))"

subsection \<open>Driving the reader\<close>

text \<open>\<open>advances n m\<close> is the object after \<open>n\<close> calls of \<^verbatim>\<open>__next__\<close>, whatever they returned.\<close>

primrec advances :: "nat \<Rightarrow> message \<Rightarrow> message" where
  "advances 0 m = m"
| "advances (Suc n) m = advances n (snd (Message_next m))"

text \<open>
  \<open>iterate n m\<close> is a \<^verbatim>\<open>for\<close> loop over the reader, cut after at most \<open>n\<close> rounds: the values
  \<^verbatim>\<open>__next__\<close> returned, in order, until it raised. \<open>surfaced\<close> keeps the events among them
  and drops the \<^verbatim>\<open>None\<close>s.
\<close>

fun iterate :: "nat \<Rightarrow> message \<Rightarrow> event option list \<times> message" where
  "iterate 0 m = ([], m)"
| "iterate (Suc n) m =
     (case Message_next m of
        (Inl e, m') \<Rightarrow> ([], m')
      | (Inr r, m') \<Rightarrow> (case iterate n m' of (rs, m'') \<Rightarrow> (r # rs, m'')))"

definition surfaced :: "event option list \<Rightarrow> event list" where
  "surfaced rs = concat (map (\<lambda>r. case r of None \<Rightarrow> [] | Some a \<Rightarrow> [a]) rs)"

text \<open>An entry of \<^verbatim>\<open>sources\<close> carries the three fields of the source \<open>w\<close>.\<close>

fun carries :: "pyval \<Rightarrow> WebSearchSource \<Rightarrow> bool" where
  "carries (PDict kvs) w =
     (map_of kvs ''title'' = Some (title w) \<and>
      map_of kvs ''link'' = Some (link w) \<and>
      map_of kvs ''hostname'' = Some (hostname w))"
| "carries x w = False"

subsection \<open>Sample events and readers\<close>

text \<open>Concrete events and freshly constructed readers, used to run the methods.\<close>

definition final_event :: event where
  "final_event = [(''type'', PStr ''finalAnswer''), (''text'', PStr ''hello'')]"

definition status_event :: event where
  "status_event = [(''type'', PStr ''status''), (''status'', PStr ''started'')]"

definition stream_event :: event where
  "stream_event = [(''type'', PStr ''stream''), (''token'', PStr ''Hi'')]"

definition web_event :: event where
  "web_event =
     [(''type'', PStr ''webSearch''),
      (''sources'', PList
         [PDict [(''title'', PStr ''T''), (''link'', PStr ''L''), (''hostname'', PStr ''H'')],
          PDict [(''link'', PStr ''L2''), (''title'', PStr ''T2''), (''hostname'', PStr ''H2''),
                 (''rank'', PInt 2)]])]"

definition bad_request_event :: event where
  "bad_request_event = [(''error'', PStr ''bad request'')]"

definition overloaded_payload_event :: event where
  "overloaded_payload_event = [(''error'', PStr ''Model is overloaded'')]"

definition typed_error_event :: event where
  "typed_error_event = [(''type'', PStr ''error''), (''error'', PStr ''bad request'')]"

definition overloaded_event :: event where
  "overloaded_event = [(''type'', PStr ''error''), (''error'', PStr ''Model is overloaded'')]"

definition unknown_event :: event where
  "unknown_event = [(''type'', PStr ''ping'')]"

definition reader_of :: "event list \<Rightarrow> message" where
  "reader_of evs = Message_init (generator evs) False False"

definition failing_reader :: message where
  "failing_reader =
     Message_init (Raise (OtherException ''ConnectionError'') ## sconst (Raise StopIteration))
       False False"

definition searching_reader :: message where
  "searching_reader =
     (Message_init (generator [stream_event]) False True)\<lparr>web_search_done := False\<rparr>"

definition stale_reader :: message where
  "stale_reader =
     (reader_of [web_event])
       \<lparr>web_search_sources := [\<lparr>title = PStr ''old'', link = PStr ''o'', hostname = PStr ''h''\<rparr>]\<rparr>"

section \<open>Properties\<close>

subsection \<open>Auxiliary facts\<close>

lemmas msg_consts = MSGTYPE_STREAM_def MSGTYPE_FINAL_def MSGTYPE_STATUS_def MSGTYPE_WEB_def
  MSGSTATUS_PENDING_def MSGSTATUS_RESOLVED_def MSGSTATUS_REJECTED_def

lemma append_sources_only_sources:
  "append_sources entries m = (r, m') \<Longrightarrow> m' = m\<lparr>web_search_sources := web_search_sources m'\<rparr>"
proof (induction entries arbitrary: m)
  case Nil
  then show ?case by simp
next
  case (Cons source rest)
  show ?case
  proof (cases "getitem source ''title''")
    case (Inl e)
    with Cons.prems show ?thesis by simp
  next
    case t: (Inr t)
    show ?thesis
    proof (cases "getitem source ''link''")
      case (Inl e)
      with t Cons.prems show ?thesis by simp
    next
      case l: (Inr l)
      show ?thesis
      proof (cases "getitem source ''hostname''")
        case (Inl e)
        with t l Cons.prems show ?thesis by simp
      next
        case (Inr h)
        with t l Cons.prems
        have "append_sources rest
            (m\<lparr>web_search_sources := web_search_sources m @ [\<lparr>title = t, link = l, hostname = h\<rparr>]\<rparr>) = (r, m')"
          by simp
        from Cons.IH [OF this] show ?thesis by simp
      qed
    qed
  qed
qed

lemma append_sources_status:
  "append_sources entries m = (r, m') \<Longrightarrow> msg_status m' = msg_status m"
  by (drule append_sources_only_sources) (erule ssubst, simp)

lemma dispatch_status:
  assumes "dispatch a t m = (r, m')"
  shows "msg_status m' = msg_status m \<or> msg_status m' = MSGSTATUS_RESOLVED \<or> msg_status m' = MSGSTATUS_REJECTED"
  using assms
  by (auto simp: dispatch_def Let_def split: if_splits sum.splits dest: append_sources_status)

lemma Message_next_status:
  "msg_status (snd (Message_next m)) = msg_status m
     \<or> msg_status m = MSGSTATUS_PENDING
        \<and> (msg_status (snd (Message_next m)) = MSGSTATUS_RESOLVED
            \<or> msg_status (snd (Message_next m)) = MSGSTATUS_REJECTED)"
proof (cases "msg_status m = 0")
  case False
  then show ?thesis by (simp add: Message_next_def)
next
  case True
  have d: "msg_status m2 = 0 \<or> msg_status m2 = MSGSTATUS_RESOLVED \<or> msg_status m2 = MSGSTATUS_REJECTED"
    if "dispatch a t (m\<lparr>g := stl (g m)\<rparr>) = (r, m2)" for a t r m2
    using dispatch_status [OF that] True by simp
  show ?thesis
    using True
    by (auto simp: Message_next_def Let_def except_Exception_def MSGSTATUS_PENDING_def
        split: pull.splits sum.splits prod.splits option.splits dest: d)
qed

lemma advances_terminal: "msg_status m \<noteq> 0 \<Longrightarrow> advances n m = m"
  by (induction n) (simp_all add: Message_next_def)

lemma Message_next_terminal:
  "msg_status m \<noteq> 0 \<Longrightarrow> Message_next m = (Inl StopIteration, m)"
  by (simp add: Message_next_def)

lemmas run_defs = Let_def Message_next_def dispatch_def except_Exception_def generator_def
  Message_init_def web_search_class_default_def contains_def Message_done_def reader_of_def

lemma getitem_event:
  "getitem (PDict a) k = (case map_of a k of None \<Rightarrow> Inl (KeyError k) | Some v \<Rightarrow> Inr v)"
  by simp

lemma contains_map_of: "contains a k \<longleftrightarrow> map_of a k \<noteq> None"
  by (simp add: contains_def map_of_eq_None_iff)

lemma Message_next_Raise:
  assumes "msg_status m = 0" and "shd (g m) = Raise e" and "is_Exception e"
  shows "Message_next m =
    (Inr None, m\<lparr>g := stl (g m), error := Some e, msg_status := MSGSTATUS_REJECTED\<rparr>)"
  using assms by (simp add: Message_next_def except_Exception_def)

lemma wait_until_done_terminal:
  assumes "msg_status m \<noteq> 0"
  shows "wait_until_done m =
    Some (if msg_status m = MSGSTATUS_RESOLVED then Inr (final_answer m)
          else (case error m of
                  Some e \<Rightarrow> Inl e
                | None \<Rightarrow> Inl (Exception ''Rejected but no error captured!'')), m)"
  using assms
  by (subst wait_until_done.simps) (simp add: Message_done_def split: option.split)

lemma wait_until_done_step:
  assumes "msg_status m = 0" and "Message_next m = (Inr r, m')"
  shows "wait_until_done m = wait_until_done m'"
  using assms by (subst wait_until_done.simps) (simp add: Message_done_def)

lemma wait_until_done_propagates:
  assumes "msg_status m = 0" and "Message_next m = (Inl e, m')"
  shows "wait_until_done m = Some (Inl e, m')"
  using assms by (subst wait_until_done.simps) (simp add: Message_done_def)

lemma wait_until_done_Raise:
  assumes "msg_status m = 0" and "shd (g m) = Raise e" and "is_Exception e"
  shows "wait_until_done m =
    Some (Inl e, m\<lparr>g := stl (g m), error := Some e, msg_status := MSGSTATUS_REJECTED\<rparr>)"
proof -
  let ?m' = "m\<lparr>g := stl (g m), error := Some e, msg_status := MSGSTATUS_REJECTED\<rparr>"
  have "wait_until_done m = wait_until_done ?m'"
    using assms by (intro wait_until_done_step [of m None]) (simp_all add: Message_next_Raise)
  also have "\<dots> = Some (Inl e, ?m')"
    by (subst wait_until_done_terminal) (simp_all add: msg_consts)
  finally show ?thesis .
qed

lemmas repr_defs = str_def repr_str_def repr_quote_def repr_char_def isprintable_def Let_def

lemma occurs_in_iff: "occurs_in needle hay \<longleftrightarrow> (\<exists>pre post. hay = pre @ needle @ post)"
proof (induction hay)
  case Nil
  then show ?case by auto
next
  case (Cons c cs)
  have "take (length needle) (c # cs) = needle \<longleftrightarrow> (\<exists>post. c # cs = needle @ post)"
    by (metis append_eq_conv_conj append_take_drop_id)
  moreover have "(\<exists>pre post. c # cs = pre @ needle @ post)
      \<longleftrightarrow> (\<exists>post. c # cs = needle @ post) \<or> (\<exists>pre post. cs = pre @ needle @ post)"
  proof
    assume "\<exists>pre post. c # cs = pre @ needle @ post"
    then obtain pre post where e: "c # cs = pre @ needle @ post" by blast
    show "(\<exists>post. c # cs = needle @ post) \<or> (\<exists>pre post. cs = pre @ needle @ post)"
    proof (cases pre)
      case Nil
      with e show ?thesis by auto
    next
      case (Cons p ps)
      with e have "cs = ps @ needle @ post" by simp
      then show ?thesis by blast
    qed
  next
    assume "(\<exists>post. c # cs = needle @ post) \<or> (\<exists>pre post. cs = pre @ needle @ post)"
    then show "\<exists>pre post. c # cs = pre @ needle @ post"
    proof
      assume "\<exists>post. c # cs = needle @ post"
      then show ?thesis by (metis append_Nil)
    next
      assume "\<exists>pre post. cs = pre @ needle @ post"
      then obtain pre post where "cs = pre @ needle @ post" by blast
      then have "c # cs = (c # pre) @ needle @ post" by simp
      then show ?thesis by blast
    qed
  qed
  ultimately show ?case using Cons.IH by simp
qed

lemma dispatch_fallback:
  assumes "t \<noteq> PStr MSGTYPE_STREAM" and "t \<noteq> PStr MSGTYPE_STATUS"
    and "t \<noteq> PStr MSGTYPE_FINAL" and "t \<noteq> PStr MSGTYPE_WEB"
  shows "dispatch a t m =
    (None,
     if occurs_in ''Model is overloaded'' (str a)
     then m\<lparr>error := Some (ModelOverloadedError
            ''Model is overloaded, please try again later or switch to another model.''),
          msg_status := MSGSTATUS_REJECTED\<rparr>
     else (case map_of a ''error'' of
             Some v \<Rightarrow> m\<lparr>error := Some (ChatError v), msg_status := MSGSTATUS_REJECTED\<rparr>
           | None \<Rightarrow> m\<lparr>error := Some (ChatError (PStr (''Unknow json response: '' @ str a)))\<rparr>))"
  using assms by (auto simp: dispatch_def contains_map_of split: option.splits)

lemma append_sources_carried:
  "list_all2 carries entries ws \<Longrightarrow>
   append_sources entries m = (None, m\<lparr>web_search_sources := web_search_sources m @ ws\<rparr>)"
proof (induction entries ws arbitrary: m rule: list_all2_induct)
  case Nil
  then show ?case by simp
next
  case (Cons x xs w ws)
  from Cons.hyps(1) obtain kvs where x: "x = PDict kvs"
    and f: "map_of kvs ''title'' = Some (title w)" "map_of kvs ''link'' = Some (link w)"
      "map_of kvs ''hostname'' = Some (hostname w)"
    by (cases x) simp_all
  have w: "\<lparr>title = title w, link = link w, hostname = hostname w\<rparr> = w"
    by simp
  show ?case
    by (simp add: x f w Cons.IH)
qed

lemma getitem_raises_Exception: "getitem x k = Inl e \<Longrightarrow> is_Exception e"
  by (cases x) (auto split: option.splits)

lemma iter_raises_Exception: "iter x = Inl e \<Longrightarrow> is_Exception e"
  by (cases x) auto

lemma append_sources_raises_Exception:
  "append_sources entries m = (Some e, m') \<Longrightarrow> is_Exception e"
  by (induction entries arbitrary: m)
    (auto split: sum.splits dest: getitem_raises_Exception)

lemma dispatch_raises_Exception:
  "dispatch a t m = (Some e, m') \<Longrightarrow> is_Exception e"
  by (auto simp: dispatch_def Let_def split: if_splits sum.splits option.splits
      dest: getitem_raises_Exception iter_raises_Exception append_sources_raises_Exception)

lemma dispatch_stream_yield_all:
  "dispatch a t m = (r, m') \<Longrightarrow> stream_yield_all m' = stream_yield_all m"
  by (auto simp: dispatch_def Let_def split: if_splits sum.splits option.splits
      dest: append_sources_only_sources [THEN arg_cong, of _ _ _ _ stream_yield_all])

lemma Message_next_stream_yield_all:
  "stream_yield_all (snd (Message_next m)) = stream_yield_all m"
proof -
  have d: "stream_yield_all m2 = stream_yield_all m"
    if "dispatch a t (m\<lparr>g := stl (g m)\<rparr>) = (r, m2)" for a t r m2
    using dispatch_stream_yield_all [OF that] by simp
  show ?thesis
    by (auto simp: Message_next_def Let_def except_Exception_def
        split: pull.splits sum.splits prod.splits option.splits dest: d)
qed

lemma Message_next_silent:
  assumes "\<not> stream_yield_all m" and "msg_status m = 0" and "shd (g m) = Yield a"
    and "map_of a ''type'' \<noteq> Some (PStr MSGTYPE_STREAM)"
  shows "fst (Message_next m) = Inr None"
proof -
  have d: "\<not> stream_yield_all m2"
    if "dispatch a t (m\<lparr>g := stl (g m)\<rparr>) = (r, m2)" for t r m2
    using dispatch_stream_yield_all [OF that] assms(1) by simp
  show ?thesis
    using assms
    by (auto simp: Message_next_def Let_def except_Exception_def
        split: sum.splits prod.splits option.splits
        dest: d dispatch_raises_Exception)
qed

lemma Message_next_surfaces_stream:
  assumes "\<not> stream_yield_all m" and "Message_next m = (Inr (Some a), m')"
  shows "map_of a ''type'' = Some (PStr MSGTYPE_STREAM)"
proof -
  have d: "\<not> stream_yield_all m2"
    if "dispatch b t (m\<lparr>g := stl (g m)\<rparr>) = (r, m2)" for b t r m2
    using dispatch_stream_yield_all [OF that] assms(1) by simp
  show ?thesis
    using assms
    by (auto simp: Message_next_def Let_def except_Exception_def
        split: if_splits pull.splits sum.splits prod.splits option.splits dest: d)
qed

lemma iterate_surfaces_stream:
  "\<not> stream_yield_all m \<Longrightarrow> b \<in> set (surfaced (fst (iterate n m))) \<Longrightarrow>
   map_of b ''type'' = Some (PStr MSGTYPE_STREAM)"
proof (induction n arbitrary: m)
  case 0
  then show ?case by (simp add: surfaced_def)
next
  case (Suc n)
  obtain r m' where nx: "Message_next m = (r, m')" by (cases "Message_next m")
  have y: "\<not> stream_yield_all m'"
    using Message_next_stream_yield_all [of m] nx Suc.prems(1) by simp
  show ?case
  proof (cases r)
    case (Inl e)
    with nx Suc.prems(2) show ?thesis by (simp add: surfaced_def)
  next
    case (Inr v)
    obtain rs m'' where it: "iterate n m' = (rs, m'')" by (cases "iterate n m'")
    from nx Inr it Suc.prems(2)
    have "b \<in> set (surfaced [v]) \<or> b \<in> set (surfaced rs)"
      by (auto simp: surfaced_def)
    then show ?thesis
    proof
      assume "b \<in> set (surfaced [v])"
      then have "v = Some b" by (cases v) (simp_all add: surfaced_def)
      with nx Inr Suc.prems(1) show ?thesis
        by (auto dest: Message_next_surfaces_stream)
    next
      assume "b \<in> set (surfaced rs)"
      with it Suc.IH [OF y, of ] show ?thesis by simp
    qed
  qed
qed

lemma wait_until_done_advances:
  assumes "\<forall>j<k. msg_status (advances j m) = MSGSTATUS_PENDING
             \<and> \<not> isl (fst (Message_next (advances j m)))"
  shows "wait_until_done m = wait_until_done (advances k m)"
  using assms
proof (induction k arbitrary: m)
  case 0
  then show ?case by simp
next
  case (Suc k)
  from Suc.prems have "msg_status (advances 0 m) = MSGSTATUS_PENDING
      \<and> \<not> isl (fst (Message_next (advances 0 m)))"
    by blast
  then have p: "msg_status m = 0" and r: "\<not> isl (fst (Message_next m))"
    by (simp_all add: MSGSTATUS_PENDING_def)
  from r obtain v where nx: "Message_next m = (Inr v, snd (Message_next m))"
    by (cases "Message_next m") (auto simp: isl_def split: sum.splits; metis sum.exhaust)
  have rest: "\<forall>j<k. msg_status (advances j (snd (Message_next m))) = MSGSTATUS_PENDING
             \<and> \<not> isl (fst (Message_next (advances j (snd (Message_next m)))))"
  proof (intro allI impI)
    fix j
    assume "j < k"
    then have "Suc j < Suc k" by simp
    with Suc.prems show "msg_status (advances j (snd (Message_next m))) = MSGSTATUS_PENDING
             \<and> \<not> isl (fst (Message_next (advances j (snd (Message_next m)))))"
      by (metis advances.simps(2))
  qed
  have "wait_until_done m = wait_until_done (snd (Message_next m))"
    by (rule wait_until_done_step [OF p nx])
  also have "\<dots> = wait_until_done (advances k (snd (Message_next m)))"
    by (rule Suc.IH [OF rest])
  finally show ?case by simp
qed

lemma generator_Nil: "shd (generator []) = Raise StopIteration"
  by (simp add: generator_def)

lemma generator_Cons:
  "shd (generator (a # evs)) = Yield a" "stl (generator (a # evs)) = generator evs"
  by (simp_all add: generator_def)

lemma dispatch_g: "dispatch a t m = (r, m') \<Longrightarrow> g m' = g m"
  by (auto simp: dispatch_def Let_def split: if_splits sum.splits option.splits
      dest: append_sources_only_sources [THEN arg_cong, of _ _ _ _ g])

lemma getitem_raises: "getitem x k = Inl e \<Longrightarrow> e = KeyError k \<or> e = TypeError"
  by (cases x) (auto split: option.splits)

lemma iter_raises: "iter x = Inl e \<Longrightarrow> e = TypeError"
  by (cases x) auto

lemma append_sources_raises:
  "append_sources entries m = (Some e, m') \<Longrightarrow> e \<noteq> StopIteration"
  by (induction entries arbitrary: m)
    (auto split: sum.splits dest: getitem_raises)

lemma dispatch_raises:
  "dispatch a t m = (Some e, m') \<Longrightarrow> e \<noteq> StopIteration"
  by (auto simp: dispatch_def Let_def split: if_splits sum.splits option.splits
      dest: iter_raises append_sources_raises)

lemma dispatch_without_final:
  assumes "dispatch a t m = (r, m')" and "t \<noteq> PStr MSGTYPE_FINAL"
  shows "msg_status m' = msg_status m
     \<or> msg_status m' = MSGSTATUS_REJECTED \<and> error m' \<noteq> None \<and> error m' \<noteq> Some StopIteration"
  using assms
  by (auto simp: dispatch_def Let_def split: if_splits sum.splits option.splits
      dest: append_sources_status)

lemma Message_next_without_final:
  assumes "msg_status m = 0" and "shd (g m) = Yield a"
    and "map_of a ''type'' \<noteq> Some (PStr MSGTYPE_FINAL)"
  shows "\<exists>v m'. Message_next m = (Inr v, m') \<and> g m' = stl (g m)
     \<and> (msg_status m' = 0
         \<or> msg_status m' = MSGSTATUS_REJECTED \<and> error m' \<noteq> None
            \<and> error m' \<noteq> Some StopIteration)"
proof (cases "map_of a ''type''")
  case None
  with assms show ?thesis
    by (simp add: Message_next_def except_Exception_def)
next
  case (Some t)
  with assms(3) have t: "t \<noteq> PStr MSGTYPE_FINAL" by simp
  obtain r m2 where d: "dispatch a t (m\<lparr>g := stl (g m)\<rparr>) = (r, m2)"
    by (cases "dispatch a t (m\<lparr>g := stl (g m)\<rparr>)")
  from dispatch_g [OF d] have g2: "g m2 = stl (g m)" by simp
  from dispatch_without_final [OF d t] assms(1)
  have s2: "msg_status m2 = 0
      \<or> msg_status m2 = MSGSTATUS_REJECTED \<and> error m2 \<noteq> None \<and> error m2 \<noteq> Some StopIteration"
    by simp
  show ?thesis
  proof (cases r)
    case None
    with assms(1,2) Some d g2 s2 show ?thesis
      by (auto simp: Message_next_def)
  next
    case e: (Some e)
    with d have "is_Exception e" and "e \<noteq> StopIteration"
      by (auto dest: dispatch_raises_Exception dispatch_raises)
    with assms(1,2) Some e d g2 show ?thesis
      by (simp add: Message_next_def except_Exception_def)
  qed
qed

lemma wait_until_done_exhausted_run:
  assumes "msg_status m = 0" and "g m = generator evs"
    and "\<forall>a \<in> set evs. map_of a ''type'' \<noteq> Some (PStr MSGTYPE_FINAL)"
  shows "msg_status (advances (Suc (length evs)) m) = MSGSTATUS_REJECTED
     \<and> (\<exists>e. error (advances (Suc (length evs)) m) = Some e
            \<and> wait_until_done m = Some (Inl e, advances (Suc (length evs)) m))
     \<and> (error (advances (Suc (length evs)) m) = Some StopIteration
          \<longleftrightarrow> msg_status (advances (length evs) m) = 0)"
  using assms
proof (induction evs arbitrary: m)
  case Nil
  then have x: "shd (g m) = Raise StopIteration" by (simp add: generator_Nil)
  have n: "Message_next m =
      (Inr None, m\<lparr>g := stl (g m), error := Some StopIteration, msg_status := MSGSTATUS_REJECTED\<rparr>)"
    by (rule Message_next_Raise [OF Nil.prems(1) x]) simp
  have w: "wait_until_done m =
      Some (Inl StopIteration,
        m\<lparr>g := stl (g m), error := Some StopIteration, msg_status := MSGSTATUS_REJECTED\<rparr>)"
    by (rule wait_until_done_Raise [OF Nil.prems(1) x]) simp
  from n w Nil.prems(1) show ?case by simp
next
  case (Cons a evs)
  from Cons.prems have y: "shd (g m) = Yield a" and s: "stl (g m) = generator evs"
    and nf: "map_of a ''type'' \<noteq> Some (PStr MSGTYPE_FINAL)"
    and rest: "\<forall>a \<in> set evs. map_of a ''type'' \<noteq> Some (PStr MSGTYPE_FINAL)"
    by (simp_all add: generator_Cons)
  from Message_next_without_final [OF Cons.prems(1) y nf] s
  obtain v m1 where nx: "Message_next m = (Inr v, m1)" and g1: "g m1 = generator evs"
    and s1: "msg_status m1 = 0
      \<or> msg_status m1 = MSGSTATUS_REJECTED \<and> error m1 \<noteq> None \<and> error m1 \<noteq> Some StopIteration"
    by auto
  have w: "wait_until_done m = wait_until_done m1"
    by (rule wait_until_done_step [OF Cons.prems(1) nx])
  have a1: "advances (Suc n) m = advances n m1" for n
    using nx by simp
  from s1 show ?case
  proof
    assume "msg_status m1 = 0"
    from Cons.IH [OF this g1 rest] show ?thesis
      using w a1 by simp
  next
    assume r: "msg_status m1 = MSGSTATUS_REJECTED \<and> error m1 \<noteq> None
        \<and> error m1 \<noteq> Some StopIteration"
    then have t: "msg_status m1 \<noteq> 0" by (simp add: msg_consts)
    from r obtain e where e: "error m1 = Some e" by auto
    have k: "advances n m1 = m1" for n
      by (rule advances_terminal [OF t])
    from wait_until_done_terminal [OF t] r e
    have "wait_until_done m1 = Some (Inl e, m1)"
      by (simp add: msg_consts)
    with w r e t show ?thesis
      by (simp add: a1 k del: advances.simps)
  qed
qed

lemma str_typed_error_event:
  "str typed_error_event =
     [CHR ''{'', CHR 0x27] @ ''type'' @ [CHR 0x27] @ '': '' @ [CHR 0x27] @ ''error'' @ [CHR 0x27]
     @ '', '' @ [CHR 0x27] @ ''error'' @ [CHR 0x27] @ '': '' @ [CHR 0x27] @ ''bad request''
     @ [CHR 0x27, CHR ''}'']"
  by (simp add: typed_error_event_def repr_defs)

subsection \<open>The status only leaves pending, and a terminal reader is stopped\<close>

text \<open>
  C1. The status is monotonic and the terminal states are absorbing. Whenever a call of
  \<^verbatim>\<open>__next__\<close> changes \<open>msg_status\<close>, the old value is pending and the new one is resolved
  or rejected. For a reader whose status is not pending (resolved or rejected), every later
  call of \<^verbatim>\<open>__next__\<close>, after any number \<open>n\<close> of calls, raises \<open>StopIteration\<close> and leaves
  every field of the reader, the producer included, as it was.
\<close>

theorem status_monotonic_terminal_absorbing:
  "(msg_status m \<noteq> MSGSTATUS_PENDING \<longrightarrow>
      advances n m = m \<and> Message_next (advances n m) = (Inl StopIteration, m))
   \<and> (msg_status (snd (Message_next m)) \<noteq> msg_status m \<longrightarrow>
      msg_status m = MSGSTATUS_PENDING
      \<and> msg_status (snd (Message_next m)) \<in> {MSGSTATUS_RESOLVED, MSGSTATUS_REJECTED})"
proof (intro conjI impI)
  assume t: "msg_status m \<noteq> MSGSTATUS_PENDING"
  then have "msg_status m \<noteq> 0" by (simp add: MSGSTATUS_PENDING_def)
  then show "advances n m = m" and "Message_next (advances n m) = (Inl StopIteration, m)"
    by (simp_all add: advances_terminal Message_next_terminal)
next
  assume "msg_status (snd (Message_next m)) \<noteq> msg_status m"
  with Message_next_status [of m]
  show "msg_status m = MSGSTATUS_PENDING"
    and "msg_status (snd (Message_next m)) \<in> {MSGSTATUS_RESOLVED, MSGSTATUS_REJECTED}"
    by auto
qed

theorem status_monotonic_terminal_absorbing_witness:
  "msg_status (snd (Message_next (reader_of [final_event]))) \<noteq> MSGSTATUS_PENDING
   \<and> advances 3 (snd (Message_next (reader_of [final_event])))
       = snd (Message_next (reader_of [final_event]))
   \<and> Message_next (advances 3 (snd (Message_next (reader_of [final_event]))))
       = (Inl StopIteration, snd (Message_next (reader_of [final_event])))
   \<and> msg_status (snd (Message_next (reader_of [final_event]))) \<noteq> msg_status (reader_of [final_event])
   \<and> msg_status (reader_of [final_event]) = MSGSTATUS_PENDING
   \<and> msg_status (snd (Message_next (reader_of [final_event])))
       \<in> {MSGSTATUS_RESOLVED, MSGSTATUS_REJECTED}"
proof -
  let ?r = "reader_of [final_event]"
  let ?d = "snd (Message_next ?r)"
  have s: "msg_status ?d = MSGSTATUS_RESOLVED"
    by (simp add: run_defs final_event_def msg_consts)
  have t: "msg_status ?d \<noteq> MSGSTATUS_PENDING"
    using s by (simp add: msg_consts)
  have n: "msg_status ?d \<noteq> msg_status ?r"
    using s by (simp add: run_defs msg_consts)
  from status_monotonic_terminal_absorbing [of ?d 3] t
  have a: "advances 3 ?d = ?d \<and> Message_next (advances 3 ?d) = (Inl StopIteration, ?d)"
    by blast
  from status_monotonic_terminal_absorbing [of ?r 0] n
  have b: "msg_status ?r = MSGSTATUS_PENDING
      \<and> msg_status ?d \<in> {MSGSTATUS_RESOLVED, MSGSTATUS_REJECTED}"
    by blast
  from a b t n show ?thesis by blast
qed

subsection \<open>Events of no known type\<close>

text \<open>
  An event whose \<^verbatim>\<open>type\<close> field is present and is none of \<^verbatim>\<open>stream\<close>, \<^verbatim>\<open>status\<close>,
  \<^verbatim>\<open>finalAnswer\<close> and \<^verbatim>\<open>webSearch\<close> reaches the fallback of lines 86 to 96, which
  classifies it in this order: if \<^verbatim>\<open>str\<close> of the event contains \<^verbatim>\<open>Model is overloaded\<close>,
  the error is a \<open>ModelOverloadedError\<close> and the status becomes rejected; else if the event
  has an \<^verbatim>\<open>error\<close> field, the error is a \<open>ChatError\<close> of that field's value and the status
  becomes rejected; else the error is the \<open>ChatError\<close> for an unknown response, made from
  the text of the event, and the status is left as it was. The event is returned only
  with \<open>stream_yield_all\<close>.
\<close>

lemma fallback_classification:
  assumes "msg_status m = MSGSTATUS_PENDING" and "shd (g m) = Yield a"
    and "map_of a ''type'' = Some t"
    and "t \<notin> {PStr MSGTYPE_STREAM, PStr MSGTYPE_STATUS, PStr MSGTYPE_FINAL, PStr MSGTYPE_WEB}"
  shows "Message_next m =
    (if stream_yield_all m then Inr (Some a) else Inr None,
     if occurs_in ''Model is overloaded'' (str a)
     then m\<lparr>g := stl (g m),
            error := Some (ModelOverloadedError
              ''Model is overloaded, please try again later or switch to another model.''),
            msg_status := MSGSTATUS_REJECTED\<rparr>
     else (case map_of a ''error'' of
             Some v \<Rightarrow>
               m\<lparr>g := stl (g m), error := Some (ChatError v), msg_status := MSGSTATUS_REJECTED\<rparr>
           | None \<Rightarrow>
               m\<lparr>g := stl (g m),
                 error := Some (ChatError (PStr (''Unknow json response: '' @ str a)))\<rparr>))"
proof -
  from assms(4) have t: "t \<noteq> PStr MSGTYPE_STREAM" "t \<noteq> PStr MSGTYPE_STATUS"
    "t \<noteq> PStr MSGTYPE_FINAL" "t \<noteq> PStr MSGTYPE_WEB"
    by simp_all
  from assms(1) have p: "msg_status m = 0" by (simp add: MSGSTATUS_PENDING_def)
  show ?thesis
    using p assms(2,3) t(1)
    by (simp add: Message_next_def dispatch_fallback [OF t] split: option.split)
qed

lemma fallback_classification_examples:
  "msg_status (reader_of [overloaded_event]) = MSGSTATUS_PENDING
   \<and> shd (g (reader_of [overloaded_event])) = Yield overloaded_event
   \<and> map_of overloaded_event ''type'' = Some (PStr ''error'')
   \<and> PStr ''error'' \<notin> {PStr MSGTYPE_STREAM, PStr MSGTYPE_STATUS, PStr MSGTYPE_FINAL, PStr MSGTYPE_WEB}
   \<and> occurs_in ''Model is overloaded'' (str overloaded_event)
   \<and> error (snd (Message_next (reader_of [overloaded_event])))
       = Some (ModelOverloadedError
           ''Model is overloaded, please try again later or switch to another model.'')
   \<and> msg_status (snd (Message_next (reader_of [overloaded_event]))) = MSGSTATUS_REJECTED
   \<and> map_of typed_error_event ''type'' = Some (PStr ''error'')
   \<and> \<not> occurs_in ''Model is overloaded'' (str typed_error_event)
   \<and> error (snd (Message_next (reader_of [typed_error_event])))
       = Some (ChatError (PStr ''bad request''))
   \<and> msg_status (snd (Message_next (reader_of [typed_error_event]))) = MSGSTATUS_REJECTED
   \<and> map_of unknown_event ''type'' = Some (PStr ''ping'')
   \<and> PStr ''ping'' \<notin> {PStr MSGTYPE_STREAM, PStr MSGTYPE_STATUS, PStr MSGTYPE_FINAL, PStr MSGTYPE_WEB}
   \<and> \<not> occurs_in ''Model is overloaded'' (str unknown_event)
   \<and> error (snd (Message_next (reader_of [unknown_event])))
       = Some (ChatError (PStr (''Unknow json response: '' @ str unknown_event)))
   \<and> msg_status (snd (Message_next (reader_of [unknown_event]))) = MSGSTATUS_PENDING"
proof -
  have ty: "PStr ''error'' \<notin> {PStr MSGTYPE_STREAM, PStr MSGTYPE_STATUS, PStr MSGTYPE_FINAL, PStr MSGTYPE_WEB}"
    "PStr ''ping'' \<notin> {PStr MSGTYPE_STREAM, PStr MSGTYPE_STATUS, PStr MSGTYPE_FINAL, PStr MSGTYPE_WEB}"
    by (simp_all add: msg_consts)
  have o: "msg_status (reader_of [overloaded_event]) = MSGSTATUS_PENDING"
    "shd (g (reader_of [overloaded_event])) = Yield overloaded_event"
    "map_of overloaded_event ''type'' = Some (PStr ''error'')"
    by (simp_all add: reader_of_def Message_init_def generator_def overloaded_event_def)
  have om: "occurs_in ''Model is overloaded'' (str overloaded_event)"
    by (simp add: overloaded_event_def repr_defs)
  have e: "msg_status (reader_of [typed_error_event]) = MSGSTATUS_PENDING"
    "shd (g (reader_of [typed_error_event])) = Yield typed_error_event"
    "map_of typed_error_event ''type'' = Some (PStr ''error'')"
    by (simp_all add: reader_of_def Message_init_def generator_def typed_error_event_def)
  have em: "\<not> occurs_in ''Model is overloaded'' (str typed_error_event)"
    by (simp add: str_typed_error_event)
  have ee: "map_of typed_error_event ''error'' = Some (PStr ''bad request'')"
    by (simp add: typed_error_event_def)
  have u: "msg_status (reader_of [unknown_event]) = MSGSTATUS_PENDING"
    "shd (g (reader_of [unknown_event])) = Yield unknown_event"
    "map_of unknown_event ''type'' = Some (PStr ''ping'')"
    by (simp_all add: reader_of_def Message_init_def generator_def unknown_event_def)
  have um: "\<not> occurs_in ''Model is overloaded'' (str unknown_event)"
    by (simp add: unknown_event_def repr_defs)
  have ue: "map_of unknown_event ''error'' = None"
    by (simp add: unknown_event_def)
  have 1: "error (snd (Message_next (reader_of [overloaded_event])))
       = Some (ModelOverloadedError
           ''Model is overloaded, please try again later or switch to another model.'')"
    "msg_status (snd (Message_next (reader_of [overloaded_event]))) = MSGSTATUS_REJECTED"
    using fallback_classification [OF o ty(1)] om by simp_all
  have 2: "error (snd (Message_next (reader_of [typed_error_event])))
       = Some (ChatError (PStr ''bad request''))"
    "msg_status (snd (Message_next (reader_of [typed_error_event]))) = MSGSTATUS_REJECTED"
    using fallback_classification [OF e ty(1)] em ee by simp_all
  have 3: "error (snd (Message_next (reader_of [unknown_event])))
       = Some (ChatError (PStr (''Unknow json response: '' @ str unknown_event)))"
    "msg_status (snd (Message_next (reader_of [unknown_event]))) = MSGSTATUS_PENDING"
    using fallback_classification [OF u ty(2)] um ue u(1) by simp_all
  from ty o om e em u um 1 2 3 show ?thesis by blast
qed

text \<open>
  C2 states this classification for every pulled event whose type is none of the four,
  and the spec's scenarios C and D run it on error payloads that have no \<^verbatim>\<open>type\<close> field
  at all: \<^verbatim>\<open>{'error': 'Model is overloaded'}\<close> and \<^verbatim>\<open>{'error': 'bad request'}\<close>. The fallback
  is written for such payloads, but they never reach it: the lookup \<^verbatim>\<open>a["type"]\<close> of
  line 68 raises first, and the handler stores that \<open>KeyError\<close>. The reader is rejected
  with the \<open>KeyError\<close> of the key \<^verbatim>\<open>type\<close>, not with a \<open>ModelOverloadedError\<close> or a
  \<open>ChatError\<close> of the \<^verbatim>\<open>error\<close> field.
\<close>

theorem typeless_error_event_KeyError:
  "map_of bad_request_event ''type'' = None
   \<and> \<not> occurs_in ''Model is overloaded'' (str bad_request_event)
   \<and> map_of bad_request_event ''error'' = Some (PStr ''bad request'')
   \<and> error (snd (Message_next (reader_of [bad_request_event]))) = Some (KeyError ''type'')
   \<and> error (snd (Message_next (reader_of [bad_request_event])))
       \<noteq> Some (ChatError (PStr ''bad request''))
   \<and> msg_status (snd (Message_next (reader_of [bad_request_event]))) = MSGSTATUS_REJECTED
   \<and> map_of overloaded_payload_event ''type'' = None
   \<and> occurs_in ''Model is overloaded'' (str overloaded_payload_event)
   \<and> error (snd (Message_next (reader_of [overloaded_payload_event])))
       = Some (KeyError ''type'')
   \<and> error (snd (Message_next (reader_of [overloaded_payload_event])))
       \<noteq> Some (ModelOverloadedError
           ''Model is overloaded, please try again later or switch to another model.'')
   \<and> msg_status (snd (Message_next (reader_of [overloaded_payload_event])))
       = MSGSTATUS_REJECTED"
  by (simp add: run_defs bad_request_event_def overloaded_payload_event_def msg_consts
      repr_defs)

subsection \<open>The result of \<^verbatim>\<open>wait_until_done\<close>\<close>

text \<open>
  C3. \<^verbatim>\<open>wait_until_done\<close> calls \<^verbatim>\<open>__next__\<close> again and again until the status is terminal:
  if the reader is pending for the first \<open>k\<close> calls (each of which returns) and no longer
  pending after the \<open>k\<close>-th, the method does return, in the state after exactly \<open>k\<close> calls.
  It then returns \<open>final_answer\<close> when the status is resolved; otherwise it raises the
  stored error when there is one, and the generic exception
  \<^verbatim>\<open>Rejected but no error captured!\<close> when \<open>error\<close> is \<^verbatim>\<open>None\<close>.
\<close>

theorem wait_until_done_result:
  assumes "\<forall>j<k. msg_status (advances j m) = MSGSTATUS_PENDING
             \<and> \<not> isl (fst (Message_next (advances j m)))"
    and "msg_status (advances k m) \<noteq> MSGSTATUS_PENDING"
  shows "wait_until_done m =
    Some (if msg_status (advances k m) = MSGSTATUS_RESOLVED
          then Inr (final_answer (advances k m))
          else (case error (advances k m) of
                  Some e \<Rightarrow> Inl e
                | None \<Rightarrow> Inl (Exception ''Rejected but no error captured!'')),
          advances k m)"
proof -
  have "wait_until_done m = wait_until_done (advances k m)"
    by (rule wait_until_done_advances [OF assms(1)])
  also from assms(2) have "\<dots> =
    Some (if msg_status (advances k m) = MSGSTATUS_RESOLVED
          then Inr (final_answer (advances k m))
          else (case error (advances k m) of
                  Some e \<Rightarrow> Inl e
                | None \<Rightarrow> Inl (Exception ''Rejected but no error captured!'')),
          advances k m)"
    by (intro wait_until_done_terminal) (simp add: MSGSTATUS_PENDING_def)
  finally show ?thesis .
qed

theorem wait_until_done_result_witness:
  "msg_status (advances 0 (reader_of [status_event, final_event])) = MSGSTATUS_PENDING
   \<and> \<not> isl (fst (Message_next (advances 0 (reader_of [status_event, final_event]))))
   \<and> msg_status (advances 1 (reader_of [status_event, final_event])) = MSGSTATUS_PENDING
   \<and> \<not> isl (fst (Message_next (advances 1 (reader_of [status_event, final_event]))))
   \<and> msg_status (advances 2 (reader_of [status_event, final_event])) = MSGSTATUS_RESOLVED
   \<and> wait_until_done (reader_of [status_event, final_event])
       = Some (Inr (PStr ''hello''), advances 2 (reader_of [status_event, final_event]))
   \<and> msg_status (advances 0 failing_reader) = MSGSTATUS_PENDING
   \<and> \<not> isl (fst (Message_next (advances 0 failing_reader)))
   \<and> msg_status (advances 1 failing_reader) = MSGSTATUS_REJECTED
   \<and> wait_until_done failing_reader
       = Some (Inl (OtherException ''ConnectionError''), advances 1 failing_reader)
   \<and> wait_until_done ((reader_of [])\<lparr>msg_status := MSGSTATUS_REJECTED\<rparr>)
       = Some (Inl (Exception ''Rejected but no error captured!''),
               (reader_of [])\<lparr>msg_status := MSGSTATUS_REJECTED\<rparr>)"
proof -
  let ?r = "reader_of [status_event, final_event]"
  let ?n = "(reader_of [])\<lparr>msg_status := MSGSTATUS_REJECTED\<rparr>"
  have r0: "msg_status (advances 0 ?r) = MSGSTATUS_PENDING
      \<and> \<not> isl (fst (Message_next (advances 0 ?r)))"
    by (simp add: run_defs status_event_def msg_consts)
  have r1: "msg_status (advances 1 ?r) = MSGSTATUS_PENDING
      \<and> \<not> isl (fst (Message_next (advances 1 ?r)))"
    by (simp add: run_defs status_event_def final_event_def msg_consts)
  have r2: "msg_status (advances 2 ?r) = MSGSTATUS_RESOLVED"
    "final_answer (advances 2 ?r) = PStr ''hello''"
    by (simp_all add: eval_nat_numeral run_defs status_event_def final_event_def msg_consts)
  have rall: "\<forall>j<2. msg_status (advances j ?r) = MSGSTATUS_PENDING
      \<and> \<not> isl (fst (Message_next (advances j ?r)))"
  proof (intro allI impI)
    fix j :: nat
    assume "j < 2"
    then have "j = 0 \<or> j = 1" by arith
    with r0 r1 show "msg_status (advances j ?r) = MSGSTATUS_PENDING
      \<and> \<not> isl (fst (Message_next (advances j ?r)))"
      by blast
  qed
  have rt: "msg_status (advances 2 ?r) \<noteq> MSGSTATUS_PENDING"
    using r2 by (simp add: msg_consts)
  have a: "wait_until_done ?r = Some (Inr (PStr ''hello''), advances 2 ?r)"
    using wait_until_done_result [OF rall rt] r2 by simp
  have f0: "msg_status (advances 0 failing_reader) = MSGSTATUS_PENDING
      \<and> \<not> isl (fst (Message_next (advances 0 failing_reader)))"
    by (simp add: failing_reader_def run_defs msg_consts)
  have f1: "msg_status (advances 1 failing_reader) = MSGSTATUS_REJECTED"
    "error (advances 1 failing_reader) = Some (OtherException ''ConnectionError'')"
    by (simp_all add: failing_reader_def run_defs msg_consts)
  have fall: "\<forall>j<1. msg_status (advances j failing_reader) = MSGSTATUS_PENDING
      \<and> \<not> isl (fst (Message_next (advances j failing_reader)))"
    using f0 by simp
  have ft: "msg_status (advances 1 failing_reader) \<noteq> MSGSTATUS_PENDING"
    using f1 by (simp add: msg_consts)
  have b: "wait_until_done failing_reader
       = Some (Inl (OtherException ''ConnectionError''), advances 1 failing_reader)"
    using wait_until_done_result [OF fall ft] f1 by (simp add: msg_consts)
  have nall: "\<forall>j<0. msg_status (advances j ?n) = MSGSTATUS_PENDING
      \<and> \<not> isl (fst (Message_next (advances j ?n)))"
    by simp
  have nt: "msg_status (advances 0 ?n) \<noteq> MSGSTATUS_PENDING"
    by (simp add: msg_consts)
  have c: "wait_until_done ?n = Some (Inl (Exception ''Rejected but no error captured!''), ?n)"
    using wait_until_done_result [OF nall nt]
    by (simp add: msg_consts reader_of_def Message_init_def)
  from r0 r1 r2 a f0 f1 b c show ?thesis by blast
qed

text \<open>
  The loop of \<^verbatim>\<open>wait_until_done\<close> does not end on a producer that only sends heartbeats.
\<close>

lemma heartbeats_never_done:
  "wait_until_done (Message_init (sconst (Yield status_event)) yield_all search) = None"
proof -
  let ?S = "\<lambda>m. msg_status m = 0 \<and> g m = sconst (Yield status_event)"
  have stay: "\<exists>v m'. Message_next m = (Inr v, m') \<and> ?S m'" if "?S m" for m
    using that
    by (auto simp: Message_next_def Let_def dispatch_def status_event_def msg_consts)
  have never: "\<not> ?S m" if "wait_until_done m = Some y" for m y
    using that
  proof (induction rule: wait_until_done.raw_induct [rotated 1, consumes 1])
    case (1 f m y)
    show ?case
    proof
      assume s: "?S m"
      from stay [OF s] obtain v m' where nx: "Message_next m = (Inr v, m')" and s': "?S m'"
        by blast
      from 1(2) s nx have "f m' = Some y"
        by (simp add: Message_done_def)
      from 1(1) [OF this] s' show False by blast
    qed
  qed
  have "?S (Message_init (sconst (Yield status_event)) yield_all search)"
    by (simp add: Message_init_def msg_consts)
  with never show ?thesis
    by (cases "wait_until_done (Message_init (sconst (Yield status_event)) yield_all search)")
      auto
qed

subsection \<open>A failure of the producer\<close>

text \<open>
  C4. For every reader whose status is pending: if the pull of the producer raises an
  exception \<open>e\<close> (an instance of \<open>Exception\<close>, the class the handler at line 101 names),
  \<^verbatim>\<open>__next__\<close> stores that very \<open>e\<close> in \<open>error\<close>, sets the status to rejected and returns
  \<^verbatim>\<open>None\<close>, so no event reaches the caller. \<^verbatim>\<open>wait_until_done\<close>, called after that
  \<^verbatim>\<open>__next__\<close> or in its place, raises the same \<open>e\<close>.
\<close>

theorem producer_exception_captured:
  assumes "msg_status m = MSGSTATUS_PENDING" and "shd (g m) = Raise e" and "is_Exception e"
  shows "Message_next m =
           (Inr None, m\<lparr>g := stl (g m), error := Some e, msg_status := MSGSTATUS_REJECTED\<rparr>)
         \<and> wait_until_done (snd (Message_next m)) = Some (Inl e, snd (Message_next m))
         \<and> wait_until_done m = Some (Inl e, snd (Message_next m))"
proof -
  from assms(1) have p: "msg_status m = 0" by (simp add: MSGSTATUS_PENDING_def)
  note n = Message_next_Raise [OF p assms(2,3)]
  have "wait_until_done (snd (Message_next m)) = Some (Inl e, snd (Message_next m))"
    unfolding n by (subst wait_until_done_terminal) (simp_all add: msg_consts)
  moreover have "wait_until_done m = Some (Inl e, snd (Message_next m))"
    unfolding n using wait_until_done_Raise [OF p assms(2,3)] by simp
  ultimately show ?thesis using n by simp
qed

theorem producer_exception_captured_witness:
  "msg_status failing_reader = MSGSTATUS_PENDING
   \<and> shd (g failing_reader) = Raise (OtherException ''ConnectionError'')
   \<and> is_Exception (OtherException ''ConnectionError'')
   \<and> fst (Message_next failing_reader) = Inr None
   \<and> error (snd (Message_next failing_reader)) = Some (OtherException ''ConnectionError'')
   \<and> msg_status (snd (Message_next failing_reader)) = MSGSTATUS_REJECTED
   \<and> wait_until_done failing_reader
       = Some (Inl (OtherException ''ConnectionError''), snd (Message_next failing_reader))"
proof -
  have h: "msg_status failing_reader = MSGSTATUS_PENDING"
    "shd (g failing_reader) = Raise (OtherException ''ConnectionError'')"
    "is_Exception (OtherException ''ConnectionError'')"
    by (simp_all add: failing_reader_def Message_init_def)
  from producer_exception_captured [OF h] h show ?thesis by simp
qed

subsection \<open>Stream events\<close>

text \<open>
  C5. For every pulled event whose type is \<^verbatim>\<open>stream\<close>, \<^verbatim>\<open>__next__\<close> sets
  \<open>web_search_done\<close> to true and returns the raw event, whatever \<open>stream_yield_all\<close>,
  \<open>web_search\<close> and the earlier value of \<open>web_search_done\<close> are: the reader \<open>m\<close> is
  arbitrary but for its pending status, and nothing else of it changes.
\<close>

theorem stream_event_surfaced:
  assumes "msg_status m = MSGSTATUS_PENDING" and "shd (g m) = Yield a"
    and "map_of a ''type'' = Some (PStr MSGTYPE_STREAM)"
  shows "Message_next m = (Inr (Some a), m\<lparr>g := stl (g m), web_search_done := True\<rparr>)"
  using assms by (simp add: Message_next_def dispatch_def MSGSTATUS_PENDING_def)

theorem stream_event_surfaced_witness:
  "msg_status searching_reader = MSGSTATUS_PENDING
   \<and> shd (g searching_reader) = Yield stream_event
   \<and> map_of stream_event ''type'' = Some (PStr MSGTYPE_STREAM)
   \<and> \<not> stream_yield_all searching_reader
   \<and> web_search searching_reader
   \<and> \<not> web_search_done searching_reader
   \<and> fst (Message_next searching_reader) = Inr (Some stream_event)
   \<and> web_search_done (snd (Message_next searching_reader))"
proof -
  have h: "msg_status searching_reader = MSGSTATUS_PENDING"
    "shd (g searching_reader) = Yield stream_event"
    "map_of stream_event ''type'' = Some (PStr MSGTYPE_STREAM)"
    by (simp_all add: searching_reader_def Message_init_def generator_def stream_event_def
        MSGTYPE_STREAM_def)
  have c: "\<not> stream_yield_all searching_reader" "web_search searching_reader"
    "\<not> web_search_done searching_reader"
    by (simp_all add: searching_reader_def Message_init_def)
  from stream_event_surfaced [OF h] h c show ?thesis by simp
qed

subsection \<open>The initial value of \<open>web_search_done\<close>\<close>

text \<open>
  C6 states that a new reader has \<open>web_search_done\<close> equal to the negation of the
  constructor argument \<open>web_search\<close>. The class body computes the default once, from the
  class attribute: a reader constructed with \<open>web_search = True\<close> starts with
  \<open>web_search_done = True\<close> all the same.
\<close>

theorem web_search_done_default_ignores_argument:
  "web_search_done (Message_init gen yield_all True) = True
   \<and> web_search (Message_init gen yield_all True) = True"
  by (simp add: Message_init_def web_search_class_default_def)

subsection \<open>An error without a rejection\<close>

text \<open>
  C7 states that \<open>error\<close> is set if and only if the status is rejected. A fresh reader that
  pulls an event of an unknown type and without an \<^verbatim>\<open>error\<close> key (line 96) has an error
  stored and is still pending.
\<close>

theorem unknown_event_error_while_pending:
  "error (snd (Message_next (reader_of [unknown_event])))
     = Some (ChatError (PStr (''Unknow json response: '' @ str unknown_event)))
   \<and> msg_status (snd (Message_next (reader_of [unknown_event]))) = MSGSTATUS_PENDING
   \<and> msg_status (snd (Message_next (reader_of [unknown_event]))) \<noteq> MSGSTATUS_REJECTED"
  by (simp add: run_defs unknown_event_def msg_consts str_def repr_str_def repr_quote_def
      repr_char_def isprintable_def)

subsection \<open>A rejected reader has an error\<close>

text \<open>
  Every assignment of the rejected status comes with an assignment of \<open>error\<close>: in all
  states a freshly constructed reader reaches by calls of \<^verbatim>\<open>__next__\<close>, a rejected status
  implies a stored error. The branch of \<^verbatim>\<open>wait_until_done\<close> for a rejection without an
  error is not taken on such readers.
\<close>

lemma dispatch_rejected_has_error:
  assumes "dispatch a t m = (r, m')" and "msg_status m = 0"
    and "msg_status m' = MSGSTATUS_REJECTED"
  shows "error m' \<noteq> None"
  using assms
  by (auto simp: dispatch_def Let_def msg_consts split: if_splits sum.splits option.splits
      dest: append_sources_status)

lemma Message_next_rejected_has_error:
  assumes "msg_status m = MSGSTATUS_REJECTED \<longrightarrow> error m \<noteq> None"
    and "msg_status (snd (Message_next m)) = MSGSTATUS_REJECTED"
  shows "error (snd (Message_next m)) \<noteq> None"
proof (cases "msg_status m = 0")
  case False
  with assms show ?thesis by (simp add: Message_next_def)
next
  case True
  have d: "error m2 \<noteq> None"
    if "dispatch a t (m\<lparr>g := stl (g m)\<rparr>) = (r, m2)" "msg_status m2 = 2"
    for a t r m2
    using dispatch_rejected_has_error [OF that(1)] that(2) True by (simp add: msg_consts)
  show ?thesis
    using True assms(2)
    by (auto simp: Message_next_def Let_def except_Exception_def msg_consts
        split: pull.splits sum.splits prod.splits option.splits if_splits dest: d)
qed

lemma advances_rejected_has_error:
  "(msg_status m = MSGSTATUS_REJECTED \<longrightarrow> error m \<noteq> None) \<Longrightarrow>
   msg_status (advances n m) = MSGSTATUS_REJECTED \<Longrightarrow> error (advances n m) \<noteq> None"
proof (induction n arbitrary: m)
  case 0
  then show ?case by simp
next
  case (Suc n)
  have "msg_status (snd (Message_next m)) = MSGSTATUS_REJECTED
      \<longrightarrow> error (snd (Message_next m)) \<noteq> None"
    using Message_next_rejected_has_error [OF Suc.prems(1)] by blast
  from Suc.IH [OF this] Suc.prems(2) show ?case by simp
qed

lemma rejected_reader_has_error:
  "msg_status (advances n (Message_init gen yield_all search)) = MSGSTATUS_REJECTED \<Longrightarrow>
   error (advances n (Message_init gen yield_all search)) \<noteq> None"
  by (rule advances_rejected_has_error) (simp_all add: Message_init_def msg_consts)

subsection \<open>Web search sources\<close>

text \<open>
  C8. For every pulled event of type \<^verbatim>\<open>webSearch\<close> that carries a list under \<^verbatim>\<open>sources\<close>,
  each entry a dictionary with \<^verbatim>\<open>title\<close>, \<^verbatim>\<open>link\<close> and \<^verbatim>\<open>hostname\<close>, \<^verbatim>\<open>__next__\<close> replaces
  \<open>web_search_sources\<close> by the list \<open>ws\<close> that has one source per entry, in the same
  order, with the three fields of the entry (\<open>list_all2 carries entries ws\<close>). The old
  content does not occur in the result: nothing is appended to the previous batch, so the
  field holds exactly the sources of the most recent event.
\<close>

theorem web_search_sources_replaced:
  assumes "msg_status m = MSGSTATUS_PENDING" and "shd (g m) = Yield a"
    and "map_of a ''type'' = Some (PStr MSGTYPE_WEB)"
    and "map_of a ''sources'' = Some (PList entries)"
    and "list_all2 carries entries ws"
  shows "Message_next m =
    (if stream_yield_all m then Inr (Some a) else Inr None,
     m\<lparr>g := stl (g m), web_search_sources := ws\<rparr>)"
proof -
  from assms(1) have p: "msg_status m = 0" by (simp add: MSGSTATUS_PENDING_def)
  have c: "contains a ''sources''"
    using assms(4) by (simp add: contains_map_of)
  have d: "dispatch a (PStr MSGTYPE_WEB) (m\<lparr>g := stl (g m)\<rparr>)
      = (None, m\<lparr>g := stl (g m), web_search_sources := ws\<rparr>)"
    using c assms(4)
    by (simp add: dispatch_def msg_consts append_sources_carried [OF assms(5)])
  show ?thesis
    using p assms(2,3) d by (simp add: Message_next_def msg_consts)
qed

theorem web_search_sources_replaced_witness:
  "msg_status stale_reader = MSGSTATUS_PENDING
   \<and> shd (g stale_reader) = Yield web_event
   \<and> map_of web_event ''type'' = Some (PStr MSGTYPE_WEB)
   \<and> map_of web_event ''sources'' = Some (PList
         [PDict [(''title'', PStr ''T''), (''link'', PStr ''L''), (''hostname'', PStr ''H'')],
          PDict [(''link'', PStr ''L2''), (''title'', PStr ''T2''), (''hostname'', PStr ''H2''),
                 (''rank'', PInt 2)]])
   \<and> web_search_sources stale_reader
       = [\<lparr>title = PStr ''old'', link = PStr ''o'', hostname = PStr ''h''\<rparr>]
   \<and> web_search_sources (snd (Message_next stale_reader))
       = [\<lparr>title = PStr ''T'', link = PStr ''L'', hostname = PStr ''H''\<rparr>,
          \<lparr>title = PStr ''T2'', link = PStr ''L2'', hostname = PStr ''H2''\<rparr>]"
proof -
  have h: "msg_status stale_reader = MSGSTATUS_PENDING"
    "shd (g stale_reader) = Yield web_event"
    "map_of web_event ''type'' = Some (PStr MSGTYPE_WEB)"
    "map_of web_event ''sources'' = Some (PList
         [PDict [(''title'', PStr ''T''), (''link'', PStr ''L''), (''hostname'', PStr ''H'')],
          PDict [(''link'', PStr ''L2''), (''title'', PStr ''T2''), (''hostname'', PStr ''H2''),
                 (''rank'', PInt 2)]])"
    by (simp_all add: stale_reader_def reader_of_def Message_init_def generator_def
        web_event_def msg_consts)
  have l: "list_all2 carries
     [PDict [(''title'', PStr ''T''), (''link'', PStr ''L''), (''hostname'', PStr ''H'')],
      PDict [(''link'', PStr ''L2''), (''title'', PStr ''T2''), (''hostname'', PStr ''H2''),
             (''rank'', PInt 2)]]
     [\<lparr>title = PStr ''T'', link = PStr ''L'', hostname = PStr ''H''\<rparr>,
      \<lparr>title = PStr ''T2'', link = PStr ''L2'', hostname = PStr ''H2''\<rparr>]"
    by simp
  have o: "web_search_sources stale_reader
       = [\<lparr>title = PStr ''old'', link = PStr ''o'', hostname = PStr ''h''\<rparr>]"
    by (simp add: stale_reader_def)
  from web_search_sources_replaced [OF h l] h o show ?thesis by simp
qed

subsection \<open>Events that are not surfaced\<close>

text \<open>
  C9, amended. With \<open>stream_yield_all\<close> false, for every pulled event whose type is not
  \<^verbatim>\<open>stream\<close> (a \<^verbatim>\<open>status\<close> heartbeat, a \<^verbatim>\<open>finalAnswer\<close>, an event without a type)
  \<^verbatim>\<open>__next__\<close> returns \<^verbatim>\<open>None\<close> in place of the event, so that a loop over the reader
  receives the element \<^verbatim>\<open>None\<close> for it; and every event such a loop receives, however long
  it runs, is a \<^verbatim>\<open>stream\<close> event. Hence no event reaches the caller until a \<^verbatim>\<open>stream\<close>
  event appears.
\<close>

theorem non_stream_event_not_surfaced:
  assumes "\<not> stream_yield_all m"
  shows "(msg_status m = MSGSTATUS_PENDING \<and> shd (g m) = Yield a
            \<and> map_of a ''type'' \<noteq> Some (PStr MSGTYPE_STREAM)
          \<longrightarrow> fst (Message_next m) = Inr None)
       \<and> (\<forall>b \<in> set (surfaced (fst (iterate n m))). map_of b ''type'' = Some (PStr MSGTYPE_STREAM))"
  using assms
  by (auto simp: MSGSTATUS_PENDING_def dest: Message_next_silent iterate_surfaces_stream)

theorem non_stream_event_not_surfaced_witness:
  "\<not> stream_yield_all (reader_of [status_event, stream_event, final_event])
   \<and> msg_status (reader_of [status_event, stream_event, final_event]) = MSGSTATUS_PENDING
   \<and> shd (g (reader_of [status_event, stream_event, final_event])) = Yield status_event
   \<and> map_of status_event ''type'' \<noteq> Some (PStr MSGTYPE_STREAM)
   \<and> fst (Message_next (reader_of [status_event, stream_event, final_event])) = Inr None
   \<and> fst (iterate 5 (reader_of [status_event, stream_event, final_event]))
       = [None, Some stream_event, None]
   \<and> surfaced (fst (iterate 5 (reader_of [status_event, stream_event, final_event])))
       = [stream_event]
   \<and> map_of stream_event ''type'' = Some (PStr MSGTYPE_STREAM)"
proof -
  let ?r = "reader_of [status_event, stream_event, final_event]"
  have h: "\<not> stream_yield_all ?r"
    by (simp add: reader_of_def Message_init_def)
  have p: "msg_status ?r = MSGSTATUS_PENDING \<and> shd (g ?r) = Yield status_event
      \<and> map_of status_event ''type'' \<noteq> Some (PStr MSGTYPE_STREAM)"
    by (simp add: reader_of_def Message_init_def generator_def status_event_def msg_consts)
  have i: "fst (iterate 5 ?r) = [None, Some stream_event, None]"
    by (simp add: eval_nat_numeral run_defs status_event_def stream_event_def final_event_def
        msg_consts)
  have s: "surfaced (fst (iterate 5 ?r)) = [stream_event]"
    unfolding i by (simp add: surfaced_def)
  from non_stream_event_not_surfaced [OF h, of status_event 5] p
  have "fst (Message_next ?r) = Inr None
      \<and> (\<forall>b \<in> set (surfaced (fst (iterate 5 ?r))). map_of b ''type'' = Some (PStr MSGTYPE_STREAM))"
    by blast
  with s have "fst (Message_next ?r) = Inr None
      \<and> map_of stream_event ''type'' = Some (PStr MSGTYPE_STREAM)"
    by simp
  with h p i s show ?thesis by blast
qed

text \<open>
  C9 as stated has the iteration surface no element for such events. In the spec's
  scenario E, a heartbeat followed by the final answer, the loop over the reader runs
  twice before the third call of \<^verbatim>\<open>__next__\<close> ends it: it surfaces two elements, both
  \<^verbatim>\<open>None\<close>, and none of them an event.
\<close>

theorem scenario_E_iteration_counterexample:
  "\<not> stream_yield_all (reader_of [status_event, final_event])
   \<and> map_of status_event ''type'' \<noteq> Some (PStr MSGTYPE_STREAM)
   \<and> map_of final_event ''type'' \<noteq> Some (PStr MSGTYPE_STREAM)
   \<and> fst (iterate 5 (reader_of [status_event, final_event])) = [None, None]
   \<and> length (fst (iterate 5 (reader_of [status_event, final_event]))) = 2
   \<and> fst (Message_next (advances 2 (reader_of [status_event, final_event]))) = Inl StopIteration
   \<and> surfaced (fst (iterate 5 (reader_of [status_event, final_event]))) = []"
  by (simp add: eval_nat_numeral run_defs status_event_def final_event_def msg_consts
      surfaced_def)

subsection \<open>Exhaustion of the producer\<close>

text \<open>
  C10, amended. When the pull of a pending reader raises \<open>StopIteration\<close> (the producer
  is exhausted), \<^verbatim>\<open>__next__\<close> treats it as any other failure of the pull: that
  \<open>StopIteration\<close> is stored in \<open>error\<close> and the status becomes rejected, and
  \<^verbatim>\<open>wait_until_done\<close> on such a reader returns control by raising the stored
  \<open>StopIteration\<close>. So a producer that yields finitely many events, none of type
  \<^verbatim>\<open>finalAnswer\<close>, and then ends always leaves the reader rejected, never pending or
  resolved: \<^verbatim>\<open>wait_until_done\<close> terminates in the state reached after one call of
  \<^verbatim>\<open>__next__\<close> per event and one more, by raising the error stored there. That error is
  the \<open>StopIteration\<close> of the exhaustion exactly when the reader is still pending after
  the last event; otherwise it is the error of the event that rejected the reader before
  the producer was exhausted.
\<close>

theorem producer_exhaustion_rejects:
  assumes "msg_status m = MSGSTATUS_PENDING"
  shows "(shd (g m) = Raise StopIteration \<longrightarrow>
            Message_next m =
              (Inr None,
               m\<lparr>g := stl (g m), error := Some StopIteration, msg_status := MSGSTATUS_REJECTED\<rparr>)
            \<and> wait_until_done m =
              Some (Inl StopIteration,
               m\<lparr>g := stl (g m), error := Some StopIteration, msg_status := MSGSTATUS_REJECTED\<rparr>))
       \<and> (g m = generator evs
            \<and> (\<forall>a \<in> set evs. map_of a ''type'' \<noteq> Some (PStr MSGTYPE_FINAL)) \<longrightarrow>
            msg_status (advances (Suc (length evs)) m) = MSGSTATUS_REJECTED
            \<and> (\<exists>e. error (advances (Suc (length evs)) m) = Some e
                  \<and> wait_until_done m = Some (Inl e, advances (Suc (length evs)) m))
            \<and> (wait_until_done m = Some (Inl StopIteration, advances (Suc (length evs)) m)
                 \<longleftrightarrow> msg_status (advances (length evs) m) = MSGSTATUS_PENDING))"
proof -
  from assms have p: "msg_status m = 0" by (simp add: MSGSTATUS_PENDING_def)
  show ?thesis
  proof (intro conjI impI)
    assume x: "shd (g m) = Raise StopIteration"
    show "Message_next m =
       (Inr None,
        m\<lparr>g := stl (g m), error := Some StopIteration, msg_status := MSGSTATUS_REJECTED\<rparr>)"
      by (rule Message_next_Raise [OF p x]) simp
    show "wait_until_done m =
       Some (Inl StopIteration,
        m\<lparr>g := stl (g m), error := Some StopIteration, msg_status := MSGSTATUS_REJECTED\<rparr>)"
      by (rule wait_until_done_Raise [OF p x]) simp
  next
    assume h: "g m = generator evs
       \<and> (\<forall>a \<in> set evs. map_of a ''type'' \<noteq> Some (PStr MSGTYPE_FINAL))"
    let ?m' = "advances (Suc (length evs)) m"
    from h wait_until_done_exhausted_run [OF p, of evs]
    have r: "msg_status ?m' = MSGSTATUS_REJECTED"
      and e: "\<exists>e. error ?m' = Some e \<and> wait_until_done m = Some (Inl e, ?m')"
      and i: "error ?m' = Some StopIteration \<longleftrightarrow> msg_status (advances (length evs) m) = 0"
      by blast+
    show "msg_status ?m' = MSGSTATUS_REJECTED" by (rule r)
    show "\<exists>e. error ?m' = Some e \<and> wait_until_done m = Some (Inl e, ?m')" by (rule e)
    from e i show "wait_until_done m = Some (Inl StopIteration, ?m')
        \<longleftrightarrow> msg_status (advances (length evs) m) = MSGSTATUS_PENDING"
      by (auto simp: MSGSTATUS_PENDING_def)
  qed
qed

theorem producer_exhaustion_rejects_witness:
  "msg_status (reader_of []) = MSGSTATUS_PENDING
   \<and> shd (g (reader_of [])) = Raise StopIteration
   \<and> fst (Message_next (reader_of [])) = Inr None
   \<and> error (snd (Message_next (reader_of []))) = Some StopIteration
   \<and> msg_status (snd (Message_next (reader_of []))) = MSGSTATUS_REJECTED
   \<and> wait_until_done (reader_of []) = Some (Inl StopIteration, snd (Message_next (reader_of [])))
   \<and> msg_status (reader_of [status_event, stream_event]) = MSGSTATUS_PENDING
   \<and> g (reader_of [status_event, stream_event]) = generator [status_event, stream_event]
   \<and> map_of status_event ''type'' \<noteq> Some (PStr MSGTYPE_FINAL)
   \<and> map_of stream_event ''type'' \<noteq> Some (PStr MSGTYPE_FINAL)
   \<and> msg_status (advances 2 (reader_of [status_event, stream_event])) = MSGSTATUS_PENDING
   \<and> msg_status (advances 3 (reader_of [status_event, stream_event])) = MSGSTATUS_REJECTED
   \<and> error (advances 3 (reader_of [status_event, stream_event])) = Some StopIteration
   \<and> wait_until_done (reader_of [status_event, stream_event])
       = Some (Inl StopIteration, advances 3 (reader_of [status_event, stream_event]))"
proof -
  let ?r = "reader_of [status_event, stream_event]"
  have e: "msg_status (reader_of []) = MSGSTATUS_PENDING"
    "shd (g (reader_of [])) = Raise StopIteration"
    by (simp_all add: reader_of_def Message_init_def generator_def)
  from producer_exhaustion_rejects [OF e(1), of "[]"] e(2)
  have a: "Message_next (reader_of []) =
      (Inr None, (reader_of [])\<lparr>g := stl (g (reader_of [])), error := Some StopIteration,
         msg_status := MSGSTATUS_REJECTED\<rparr>)"
    "wait_until_done (reader_of []) =
      Some (Inl StopIteration, (reader_of [])\<lparr>g := stl (g (reader_of [])),
         error := Some StopIteration, msg_status := MSGSTATUS_REJECTED\<rparr>)"
    by blast+
  from a have c: "fst (Message_next (reader_of [])) = Inr None"
    "error (snd (Message_next (reader_of []))) = Some StopIteration"
    "msg_status (snd (Message_next (reader_of []))) = MSGSTATUS_REJECTED"
    "wait_until_done (reader_of []) = Some (Inl StopIteration, snd (Message_next (reader_of [])))"
    by simp_all
  have h: "msg_status ?r = MSGSTATUS_PENDING" "g ?r = generator [status_event, stream_event]"
    by (simp_all add: reader_of_def Message_init_def)
  have t: "map_of status_event ''type'' \<noteq> Some (PStr MSGTYPE_FINAL)"
    "map_of stream_event ''type'' \<noteq> Some (PStr MSGTYPE_FINAL)"
    by (simp_all add: status_event_def stream_event_def msg_consts)
  then have all: "\<forall>a \<in> set [status_event, stream_event].
      map_of a ''type'' \<noteq> Some (PStr MSGTYPE_FINAL)"
    by simp
  have l: "advances (Suc (length [status_event, stream_event])) ?r = advances 3 ?r"
    "advances (length [status_event, stream_event]) ?r = advances 2 ?r"
    by (simp_all add: eval_nat_numeral)
  have p2: "msg_status (advances 2 ?r) = MSGSTATUS_PENDING"
    by (simp add: eval_nat_numeral run_defs status_event_def stream_event_def msg_consts)
  from producer_exhaustion_rejects [OF h(1), of "[status_event, stream_event]"] h(2) all
  have b: "msg_status (advances 3 ?r) = MSGSTATUS_REJECTED"
    "\<exists>e. error (advances 3 ?r) = Some e \<and> wait_until_done ?r = Some (Inl e, advances 3 ?r)"
    "wait_until_done ?r = Some (Inl StopIteration, advances 3 ?r)
       \<longleftrightarrow> msg_status (advances 2 ?r) = MSGSTATUS_PENDING"
    unfolding l by blast+
  from b(3) p2 have w: "wait_until_done ?r = Some (Inl StopIteration, advances 3 ?r)"
    by blast
  with b(2) have s: "error (advances 3 ?r) = Some StopIteration"
    by auto
  from e c h t p2 b(1) s w show ?thesis by blast
qed

text \<open>
  C10 as stated has \<^verbatim>\<open>wait_until_done\<close> raise the captured \<open>StopIteration\<close> for every
  producer that ends without a \<^verbatim>\<open>finalAnswer\<close> event. A producer whose only event is an
  error report of a type of its own ends so, but that event rejects the reader:
  \<^verbatim>\<open>wait_until_done\<close> raises its \<open>ChatError\<close>, and the producer is never pulled to its end.
\<close>

theorem rejected_before_exhaustion_counterexample:
  "msg_status (reader_of [typed_error_event]) = MSGSTATUS_PENDING
   \<and> g (reader_of [typed_error_event]) = generator [typed_error_event]
   \<and> map_of typed_error_event ''type'' \<noteq> Some (PStr MSGTYPE_FINAL)
   \<and> wait_until_done (reader_of [typed_error_event])
       = Some (Inl (ChatError (PStr ''bad request'')),
               snd (Message_next (reader_of [typed_error_event])))
   \<and> wait_until_done (reader_of [typed_error_event])
       \<noteq> Some (Inl StopIteration, snd (Message_next (reader_of [typed_error_event])))
   \<and> msg_status (snd (Message_next (reader_of [typed_error_event]))) = MSGSTATUS_REJECTED
   \<and> error (snd (Message_next (reader_of [typed_error_event])))
       = Some (ChatError (PStr ''bad request''))
   \<and> g (snd (Message_next (reader_of [typed_error_event]))) = generator []"
proof -
  let ?r = "reader_of [typed_error_event]"
  have o: "\<not> occurs_in ''Model is overloaded'' (str typed_error_event)"
    by (simp add: str_typed_error_event)
  have p: "msg_status ?r = 0" "g ?r = generator [typed_error_event]"
    by (simp_all add: reader_of_def Message_init_def msg_consts)
  have ty: "map_of typed_error_event ''type'' \<noteq> Some (PStr MSGTYPE_FINAL)"
    by (simp add: typed_error_event_def msg_consts)
  have y: "shd (g ?r) = Yield typed_error_event" "stl (g ?r) = generator []"
    by (simp_all add: reader_of_def Message_init_def generator_def)
  have f: "map_of typed_error_event ''type'' = Some (PStr ''error'')"
    "map_of typed_error_event ''error'' = Some (PStr ''bad request'')"
    by (simp_all add: typed_error_event_def)
  have u: "PStr ''error'' \<noteq> PStr MSGTYPE_STREAM" "PStr ''error'' \<noteq> PStr MSGTYPE_STATUS"
    "PStr ''error'' \<noteq> PStr MSGTYPE_FINAL" "PStr ''error'' \<noteq> PStr MSGTYPE_WEB"
    by (simp_all add: msg_consts)
  have d: "dispatch typed_error_event (PStr ''error'') (?r\<lparr>g := generator []\<rparr>) =
      (None, ?r\<lparr>g := generator [], error := Some (ChatError (PStr ''bad request'')),
         msg_status := MSGSTATUS_REJECTED\<rparr>)"
    using o f(2) by (simp add: dispatch_fallback [OF u])
  have sy: "\<not> stream_yield_all ?r"
    by (simp add: reader_of_def Message_init_def)
  have n: "Message_next ?r =
      (Inr None, ?r\<lparr>g := generator [], error := Some (ChatError (PStr ''bad request'')),
         msg_status := MSGSTATUS_REJECTED\<rparr>)"
    using p(1) y f(1) d u(1) sy by (simp add: Message_next_def)
  have "wait_until_done ?r = wait_until_done (snd (Message_next ?r))"
    by (rule wait_until_done_step [OF p(1)]) (simp add: n)
  also have "\<dots> = Some (Inl (ChatError (PStr ''bad request'')), snd (Message_next ?r))"
    unfolding n by (subst wait_until_done_terminal) (simp_all add: msg_consts)
  finally have w: "wait_until_done ?r
      = Some (Inl (ChatError (PStr ''bad request'')), snd (Message_next ?r))" .
  from p ty n w show ?thesis by (simp add: msg_consts)
qed

end
